theory Spec2Isabelle
  imports Complex_Main
begin

section \<open>Building clearance engine (V22) over the reals\<close>

text \<open>
  The Python sources compute with binary floating point. The embedding reads every
  \<open>float\<close> as a real number, except the one non-finite value the code constructs
  itself, \<open>float('inf')\<close>, which is a constructor of its own. The exceptions the code
  can raise are values of \<open>py_error\<close>.
\<close>

datatype pyfloat = PosInf | Finite real

datatype py_error = UnboundLocalError | ValueError | OverflowError

text \<open>\<open>a < b\<close> for a finite \<open>a\<close> and a possibly infinite \<open>b\<close>.\<close>

fun less_pyfloat :: "real \<Rightarrow> pyfloat \<Rightarrow> bool" where
  "less_pyfloat a PosInf = True"
| "less_pyfloat a (Finite b) = (a < b)"

text \<open>\<open>numpy.linspace(start, stop, num)\<close>: \<open>num\<close> evenly spaced samples, both ends included.\<close>

definition linspace :: "real \<Rightarrow> real \<Rightarrow> nat \<Rightarrow> real list" where
  "linspace start stop num =
     map (\<lambda>i. start + real i * ((stop - start) / real (num - 1))) [0..<num]"

subsection \<open>ClearanceModelV22\<close>

definition rail_gauge :: real where
  "rail_gauge = 1067"

definition calculate_base_clearance_at_height :: "real \<Rightarrow> pyfloat" where
  "calculate_base_clearance_at_height height =
     (if height < 0 then PosInf
      else if height < 25 then Finite 1225
      else if height < 375 then Finite (1225 + (height - 25) * (1575 - 1225) / (375 - 25))
      else if height < 920 then Finite 1575
      else if height < 3156 then Finite 1900
      else if height < 3823 then
        (let discriminant = 2150\<^sup>2 - (height - 2150)\<^sup>2
         in if discriminant < 0 then Finite 0 else Finite (sqrt discriminant))
      else if height < 5190 then Finite 1350
      else
        (let discriminant = 1800\<^sup>2 - (height - 4000)\<^sup>2
         in if discriminant < 0 then Finite 0 else Finite (sqrt discriminant)))"

definition calculate_cant_correction :: "real \<Rightarrow> real \<Rightarrow> real" where
  "calculate_cant_correction height cant_mm =
     (if cant_mm = 0 then 0
      else (let cant_angle = arctan (cant_mm / rail_gauge) in height * sin cant_angle))"


subsection \<open>BuildingLimitCalculatorFixed\<close>

definition calculate_expansion_width :: "real \<Rightarrow> real" where
  "calculate_expansion_width radius =
     (if radius = 0 \<or> radius > 10000 then 0 else 23100 / radius)"

definition calculate_upper_expansion_width :: "real \<Rightarrow> real" where
  "calculate_upper_expansion_width radius =
     (if radius = 0 \<or> radius > 10000 then 0 else 11550 / radius)"

subsection \<open>ExcelAccurateCalculatorV22\<close>

definition coordinate_transform_to_rail_center :: "real \<Rightarrow> real \<Rightarrow> real \<Rightarrow> real \<times> real" where
  "coordinate_transform_to_rail_center measurement_distance measurement_height cant_mm =
     (if cant_mm = 0 then (measurement_distance, measurement_height)
      else
        (let cant_angle = arctan (cant_mm / rail_gauge);
             x_coord = measurement_distance - measurement_height * sin cant_angle;
             y_coord = measurement_height * cos cant_angle
         in (x_coord, y_coord)))"

text \<open>
  \<open>math.sqrt\<close> raises \<open>ValueError\<close> on a negative argument. Where the source calls it
  under a guard on the sign of the argument, or on a sum of squares, the model uses
  \<open>sqrt\<close> directly; \<open>py_sqrt\<close> is used where no such guard encloses the call.
\<close>

definition py_sqrt :: "real \<Rightarrow> py_error + real" where
  "py_sqrt x = (if x < 0 then Inl ValueError else Inr (sqrt x))"

text \<open>
  The loop of \<open>_create_clearance_data_with_widening\<close>. The branch \<open>height < 0\<close> assigns
  \<open>clearance\<close>, not \<open>base_clearance\<close>: the latter keeps the value of the previous
  iteration, and reading it while it is still unbound raises \<open>UnboundLocalError\<close>.
\<close>

fun clearance_data_loop ::
  "real \<Rightarrow> real list \<Rightarrow> real option \<Rightarrow> (real \<times> real) list \<Rightarrow> py_error + (real \<times> real) list" where
  "clearance_data_loop widening [] base_clearance clearance_data = Inr clearance_data"
| "clearance_data_loop widening (height # heights) base_clearance clearance_data =
     (let base_clearance' =
        (if height < 0 then base_clearance
         else if height < 25 then Some 1225
         else if height < 375 then Some (1225 + (height - 25) * (1575 - 1225) / (375 - 25))
         else if height < 920 then Some 1575
         else if height < 3156 then Some 1900
         else if height < 3823 then
           (let discriminant = 2150\<^sup>2 - (height - 2150)\<^sup>2
            in if discriminant < 0 then Some 0 else Some (sqrt discriminant))
         else if height < 5190 then Some 1350
         else
           (let discriminant = 1800\<^sup>2 - (height - 4000)\<^sup>2
            in if discriminant < 0 then Some 0 else Some (sqrt discriminant)))
      in case base_clearance' of
           None \<Rightarrow> Inl UnboundLocalError
         | Some b \<Rightarrow>
             (let clearance_with_widening = b + widening
              in clearance_data_loop widening heights (Some b)
                   (clearance_data @ [(clearance_with_widening, height)])))"

definition create_clearance_data_with_widening :: "real \<Rightarrow> py_error + (real \<times> real) list" where
  "create_clearance_data_with_widening curve_radius_m =
     (let heights = linspace 0 5700 1775;
          widening = (if curve_radius_m > 0 then 23000 / curve_radius_m else 0)
      in clearance_data_loop widening heights None [])"

definition calculate_required_clearance_excel_method :: "real \<Rightarrow> real \<Rightarrow> real \<Rightarrow> real \<Rightarrow> real" where
  "calculate_required_clearance_excel_method measurement_distance measurement_height cant_mm curve_radius_m =
     (let (x_coord, y_coord) =
            coordinate_transform_to_rail_center measurement_distance measurement_height cant_mm;
          widening = (if curve_radius_m > 0 then 23000 / curve_radius_m else 0);
          cant_correction =
            (if cant_mm = 0 then 0
             else (let cant_angle = arctan (cant_mm / rail_gauge)
                   in measurement_height * sin cant_angle));
          yd = y_coord;
          base_clearance =
            (if yd < 25 then (if yd \<le> 350 then 1225 + yd else 1225 + 350)
             else if yd < 375 then (if yd \<le> 350 then 1225 + yd else 1225 + 350)
             else if yd < 920 then 1575
             else if yd < 3156 then 1900
             else if yd < 3823 then
               (let discriminant = 2150\<^sup>2 - (yd - 2150)\<^sup>2
                in if discriminant < 0 then 0 else sqrt discriminant)
             else if yd < 5190 then 1350
             else
               (let discriminant = 1800\<^sup>2 - (yd - 4000)\<^sup>2
                in if discriminant < 0 then 0 else sqrt discriminant))
      in base_clearance + widening + cant_correction)"

fun min_distance_loop :: "real \<Rightarrow> real \<Rightarrow> (real \<times> real) list \<Rightarrow> pyfloat \<Rightarrow> pyfloat" where
  "min_distance_loop rail_x rail_y [] min_distance = min_distance"
| "min_distance_loop rail_x rail_y ((clearance_x, clearance_y) # rest) min_distance =
     (let dx = rail_x - clearance_x;
          dy = rail_y - clearance_y;
          distance = sqrt (dx\<^sup>2 + dy\<^sup>2)
      in min_distance_loop rail_x rail_y rest
           (if less_pyfloat distance min_distance then Finite distance else min_distance))"

definition calculate_ag2_excel_method :: "real \<Rightarrow> real \<Rightarrow> real \<Rightarrow> real \<Rightarrow> py_error + pyfloat" where
  "calculate_ag2_excel_method measurement_distance measurement_height cant_mm curve_radius_m =
     (let (rail_x, rail_y) =
            coordinate_transform_to_rail_center measurement_distance measurement_height cant_mm
      in case create_clearance_data_with_widening curve_radius_m of
           Inl e \<Rightarrow> Inl e
         | Inr clearance_data_with_widening \<Rightarrow>
             Inr (min_distance_loop rail_x rail_y clearance_data_with_widening PosInf))"

definition is_point_inside_building_clearance :: "real \<Rightarrow> real \<Rightarrow> real \<Rightarrow> bool" where
  "is_point_inside_building_clearance x y curve_radius_m =
     (if y < 0 \<or> y > 5700 then False
      else
        (let widening = (if curve_radius_m > 0 then 23000 / curve_radius_m else 0);
             clearance_limit =
               (if y < 25 then 1225
                else if y < 375 then 1225 + (y - 25) * (1575 - 1225) / (375 - 25)
                else if y < 920 then 1575
                else if y < 3156 then 1900
                else if y < 3823 then
                  (let discriminant = 2150\<^sup>2 - (y - 2150)\<^sup>2
                   in if discriminant < 0 then 0 else sqrt discriminant)
                else if y < 5190 then 1350
                else
                  (let discriminant = 1800\<^sup>2 - (y - 4000)\<^sup>2
                   in if discriminant < 0 then 0 else sqrt discriminant));
             clearance_limit_with_widening = clearance_limit + widening
         in \<bar>x\<bar> < clearance_limit_with_widening))"

text \<open>
  The dictionary returned by \<open>calculate_clearance_margin_excel_method\<close>, without its
  \<open>correction_method\<close> entry (a message for display, formatted from the other entries).
\<close>

record margin_result =
  ag2 :: real
  corrected_margin :: real
  final_margin :: int
  is_interference :: bool
  rail_center_coords :: "real \<times> real"
  is_inside_clearance :: bool

text \<open>
  With an infinite \<open>ag2\<close> the corrected margin is infinite too, and \<open>math.ceil\<close> and
  \<open>math.floor\<close> raise \<open>OverflowError\<close> on it.
\<close>

definition calculate_clearance_margin_excel_method ::
  "real \<Rightarrow> real \<Rightarrow> real \<Rightarrow> real \<Rightarrow> py_error + margin_result" where
  "calculate_clearance_margin_excel_method measurement_distance measurement_height cant_mm curve_radius_m =
     (case calculate_ag2_excel_method measurement_distance measurement_height cant_mm curve_radius_m of
        Inl e \<Rightarrow> Inl e
      | Inr PosInf \<Rightarrow> Inl OverflowError
      | Inr (Finite a) \<Rightarrow>
          (let (rail_x, rail_y) =
                 coordinate_transform_to_rail_center measurement_distance measurement_height cant_mm
           in case (if a < 5 then Inr 0
                    else if a < 13 then py_sqrt (a\<^sup>2 - 25)
                    else Inr a) of
                Inl e \<Rightarrow> Inl e
              | Inr c \<Rightarrow>
                  (let inside = is_point_inside_building_clearance rail_x rail_y curve_radius_m;
                       interference = (inside \<or> a < 5 \<or> c \<le> 0);
                       final = (if interference then \<lceil>c\<rceil> else \<lfloor>c\<rfloor>)
                   in Inr \<lparr>ag2 = a, corrected_margin = c, final_margin = final,
                           is_interference = interference, rail_center_coords = (rail_x, rail_y),
                           is_inside_clearance = inside\<rparr>)))"

text \<open>
  The dictionary returned by \<open>calculate_all_excel_method\<close>; its entries carry the prefix
  \<open>res\<close> here, since two of its keys are also keys of the inner dictionary.
\<close>

record excel_result =
  res_measurement_distance :: real
  res_measurement_height :: real
  res_cant_mm :: real
  res_curve_radius_m :: real
  res_required_clearance :: real
  res_clearance_margin :: int
  res_ag2_distance :: real
  res_is_interference :: bool
  res_details :: margin_result

definition calculate_all_excel_method :: "real \<Rightarrow> real \<Rightarrow> real \<Rightarrow> real \<Rightarrow> py_error + excel_result" where
  "calculate_all_excel_method measurement_distance measurement_height cant_mm curve_radius_m =
     (let required_clearance =
            calculate_required_clearance_excel_method
              measurement_distance measurement_height cant_mm curve_radius_m
      in case calculate_clearance_margin_excel_method
                measurement_distance measurement_height cant_mm curve_radius_m of
           Inl e \<Rightarrow> Inl e
         | Inr margin_result \<Rightarrow>
             Inr \<lparr>res_measurement_distance = measurement_distance,
                  res_measurement_height = measurement_height,
                  res_cant_mm = cant_mm,
                  res_curve_radius_m = curve_radius_m,
                  res_required_clearance = required_clearance,
                  res_clearance_margin = final_margin margin_result,
                  res_ag2_distance = ag2 margin_result,
                  res_is_interference = is_interference margin_result,
                  res_details = margin_result\<rparr>)"

subsection \<open>The envelope polygon\<close>

text \<open>\<open>math.atan2(y, x)\<close>, signed zeros apart.\<close>

definition atan2 :: "real \<Rightarrow> real \<Rightarrow> real" where
  "atan2 y x =
     (if x > 0 then arctan (y / x)
      else if x < 0 then (if y \<ge> 0 then arctan (y / x) + pi else arctan (y / x) - pi)
      else if y > 0 then pi / 2
      else if y < 0 then - (pi / 2)
      else 0)"

definition upper_arc_points :: "(real \<times> real) list" where
  "upper_arc_points =
     (let center_x = 0; center_y = 4000; radius = 1800;
          x_boundary = 1350;
          discriminant = radius\<^sup>2 - x_boundary\<^sup>2
      in if discriminant \<ge> 0 then
           (let y_intersect = center_y + sqrt discriminant;
                start_angle = atan2 (y_intersect - center_y) (x_boundary - center_x);
                end_angle = pi / 2
            in concat (map (\<lambda>i.
                 (let angle = start_angle + (end_angle - start_angle) * real i / 29;
                      x = center_x + radius * cos angle;
                      y = center_y + radius * sin angle
                  in if \<bar>x\<bar> \<le> 1350 \<and> y \<le> 5700 \<and> y \<ge> 4000 then [(x, y)] else []))
                 [0..<30]))
         else [])"

definition create_accurate_clearance :: "(real \<times> real) list" where
  "create_accurate_clearance =
     (let points = [(1225, 0), (1225, 25)];
          points = points @
            map (\<lambda>h. (1225 + (h - 25) * (1575 - 1225) / (375 - 25), h)) (linspace 25 375 10);
          points = points @ [(1575, 920), (1900, 920), (1900, 3156)];
          points = points @
            concat (map (\<lambda>h.
              (let discriminant = 2150\<^sup>2 - (h - 2150)\<^sup>2
               in if discriminant \<ge> 0 then [(sqrt discriminant, h)] else []))
              (linspace 3156 3823 100));
          points = points @ [(1350, 3823), (1350, 4300)];
          points = points @ upper_arc_points;
          points = points @ [(1350, 5700), (- 1350, 5700)];
          right_points = rev (filter (\<lambda>(x, y). x > 0) points);
          points = points @ map (\<lambda>(x, y). (- x, y)) (butlast (tl right_points));
          points = points @ [(1225, 0)]
      in points)"

subsection \<open>Reading a result as a real number\<close>

text \<open>
  The half-width at a height as a real number, for statements about limits. The infinite
  value, returned below the rail level only, is read as 0.
\<close>

definition base_clearance_value :: "real \<Rightarrow> real" where
  "base_clearance_value height =
     (case calculate_base_clearance_at_height height of PosInf \<Rightarrow> 0 | Finite v \<Rightarrow> v)"

subsection \<open>Notions used in the proofs\<close>

text \<open>The distance the nearest-point loop computes, from the point \<open>(x, y)\<close> to a sample.\<close>

definition point_distance :: "real \<Rightarrow> real \<Rightarrow> real \<times> real \<Rightarrow> real" where
  "point_distance x y p = sqrt ((x - fst p)\<^sup>2 + (y - snd p)\<^sup>2)"

text \<open>The samples \<open>_create_clearance_data_with_widening\<close> returns, in closed form.\<close>

definition reference_points :: "real \<Rightarrow> (real \<times> real) list" where
  "reference_points r =
     map (\<lambda>h. (base_clearance_value h + (if r > 0 then 23000 / r else 0), h)) (linspace 0 5700 1775)"

definition right_outline :: "(real \<times> real) list" where
  "right_outline =
     [(1225, 25)] @
     map (\<lambda>h. (1225 + (h - 25) * (1575 - 1225) / (375 - 25), h)) (linspace 25 375 10) @
     [(1575, 920), (1900, 920), (1900, 3156)] @
     concat (map (\<lambda>h.
        (let discriminant = 2150\<^sup>2 - (h - 2150)\<^sup>2
         in if discriminant \<ge> 0 then [(sqrt discriminant, h)] else []))
        (linspace 3156 3823 100)) @
     [(1350, 3823), (1350, 4300)] @
     upper_arc_points"

section \<open>The evaluation in closed form\<close>

subsection \<open>Bounds on square roots\<close>

lemma sqrt_gt: "0 \<le> a \<Longrightarrow> a\<^sup>2 < x \<Longrightarrow> a < sqrt x"
  using real_less_rsqrt [of a x] by simp

lemma sqrt_lt: "0 \<le> x \<Longrightarrow> 0 \<le> b \<Longrightarrow> x < b\<^sup>2 \<Longrightarrow> sqrt x < b"
  by (rule real_less_lsqrt)

lemma square_less: "0 \<le> a \<Longrightarrow> a < b \<Longrightarrow> a\<^sup>2 < (b::real)\<^sup>2"
  by (simp add: power_strict_mono)

subsection \<open>The sampling loop and the nearest-point loop\<close>

lemma linspace_nonneg: "0 \<le> a \<Longrightarrow> a \<le> b \<Longrightarrow> h \<in> set (linspace a b n) \<Longrightarrow> 0 \<le> h"
  by (auto simp add: linspace_def)

lemma linspace_lower: "a \<le> b \<Longrightarrow> h \<in> set (linspace a b n) \<Longrightarrow> a \<le> h"
  by (auto simp add: linspace_def)

lemma base_clearance_value_nonneg_eq:
  "0 \<le> h \<Longrightarrow> calculate_base_clearance_at_height h = Finite (base_clearance_value h)"
  by (simp add: base_clearance_value_def calculate_base_clearance_at_height_def Let_def)

lemma clearance_data_loop_nonneg:
  "\<forall>h\<in>set hs. 0 \<le> h \<Longrightarrow>
   clearance_data_loop w hs b acc = Inr (acc @ map (\<lambda>h. (base_clearance_value h + w, h)) hs)"
proof (induction hs arbitrary: b acc)
  case Nil
  show ?case by simp
next
  case (Cons h hs)
  have h0: "0 \<le> h" using Cons.prems by simp
  have rest: "\<forall>h\<in>set hs. 0 \<le> h" using Cons.prems by simp
  show ?case
    using h0 Cons.IH [OF rest]
    by (simp add: base_clearance_value_def calculate_base_clearance_at_height_def Let_def)
qed

lemma create_clearance_data_eq:
  "create_clearance_data_with_widening r =
     Inr (map (\<lambda>h. (base_clearance_value h + (if r > 0 then 23000 / r else 0), h))
            (linspace 0 5700 1775))"
proof -
  have "\<forall>h\<in>set (linspace 0 5700 1775). 0 \<le> h"
    using linspace_nonneg [of 0 5700] by simp
  then show ?thesis
    unfolding create_clearance_data_with_widening_def Let_def
    by (simp add: clearance_data_loop_nonneg)
qed

lemma min_distance_loop_Finite:
  "\<exists>v. min_distance_loop x y ps (Finite m) = Finite v \<and> v \<le> m
       \<and> (\<forall>p\<in>set ps. v \<le> point_distance x y p)
       \<and> (v = m \<or> v \<in> point_distance x y ` set ps)"
proof (induction ps arbitrary: m)
  case Nil
  show ?case by simp
next
  case (Cons p ps)
  obtain cx cy where p: "p = (cx, cy)" by (cases p)
  define d where "d = point_distance x y p"
  define m' where "m' = (if d < m then d else m)"
  have step: "min_distance_loop x y (p # ps) (Finite m) = min_distance_loop x y ps (Finite m')"
    by (simp add: p Let_def point_distance_def d_def m'_def)
  obtain v where v: "min_distance_loop x y ps (Finite m') = Finite v" "v \<le> m'"
    "\<forall>q\<in>set ps. v \<le> point_distance x y q" "v = m' \<or> v \<in> point_distance x y ` set ps"
    using Cons.IH [of m'] by blast
  have "v \<le> m" "v \<le> d" using v(2) by (auto simp add: m'_def split: if_splits)
  moreover have "v = m \<or> v \<in> point_distance x y ` set (p # ps)"
    using v(4) by (auto simp add: m'_def d_def split: if_splits)
  ultimately show ?case
    using step v(1) v(3) by (auto simp add: d_def)
qed

lemma min_distance_loop_PosInf:
  assumes "ps \<noteq> []"
  shows "\<exists>v. min_distance_loop x y ps PosInf = Finite v
       \<and> (\<forall>p\<in>set ps. v \<le> point_distance x y p)
       \<and> v \<in> point_distance x y ` set ps"
proof -
  obtain p qs where ps: "ps = p # qs" using assms by (cases ps) auto
  obtain cx cy where p: "p = (cx, cy)" by (cases p)
  have step: "min_distance_loop x y ps PosInf = min_distance_loop x y qs (Finite (point_distance x y p))"
    by (simp add: ps p Let_def point_distance_def)
  obtain v where v: "min_distance_loop x y qs (Finite (point_distance x y p)) = Finite v"
    "v \<le> point_distance x y p" "\<forall>q\<in>set qs. v \<le> point_distance x y q"
    "v = point_distance x y p \<or> v \<in> point_distance x y ` set qs"
    using min_distance_loop_Finite [of x y qs "point_distance x y p"] by blast
  show ?thesis
    using step v by (auto simp add: ps)
qed

lemma reference_points_nonempty: "reference_points r \<noteq> []"
  by (simp add: reference_points_def linspace_def)

lemma calculate_ag2_total:
  "\<exists>v. calculate_ag2_excel_method d h c r = Inr (Finite v)
     \<and> (\<forall>p\<in>set (reference_points r).
           v \<le> point_distance (fst (coordinate_transform_to_rail_center d h c))
                  (snd (coordinate_transform_to_rail_center d h c)) p)
     \<and> v \<in> point_distance (fst (coordinate_transform_to_rail_center d h c))
                  (snd (coordinate_transform_to_rail_center d h c)) ` set (reference_points r)"
proof -
  obtain rx ry where t: "coordinate_transform_to_rail_center d h c = (rx, ry)"
    by (cases "coordinate_transform_to_rail_center d h c")
  have data: "create_clearance_data_with_widening r = Inr (reference_points r)"
    by (simp add: create_clearance_data_eq reference_points_def)
  show ?thesis
    using min_distance_loop_PosInf [OF reference_points_nonempty, of rx ry r]
    by (simp add: calculate_ag2_excel_method_def t data)
qed

lemma ag2_nonneg:
  "calculate_ag2_excel_method d h c r = Inr (Finite v) \<Longrightarrow> 0 \<le> v"
  using calculate_ag2_total [of d h c r] by (auto simp add: point_distance_def)

lemma margin_total:
  "\<exists>res. calculate_clearance_margin_excel_method d h c r = Inr res"
proof -
  obtain v where v: "calculate_ag2_excel_method d h c r = Inr (Finite v)"
    using calculate_ag2_total [of d h c r] by blast
  obtain rx ry where t: "coordinate_transform_to_rail_center d h c = (rx, ry)"
    by (cases "coordinate_transform_to_rail_center d h c")
  have sq: "\<not> v < 5 \<Longrightarrow> \<not> v\<^sup>2 - 25 < 0"
  proof -
    assume "\<not> v < 5"
    then have "5 \<le> v" by simp
    then have "5 * 5 \<le> v * v" by (intro mult_mono) auto
    then show ?thesis by (simp add: power2_eq_square)
  qed
  show ?thesis
    using sq by (simp add: calculate_clearance_margin_excel_method_def v t py_sqrt_def Let_def)
qed

subsection \<open>The results of the evaluation\<close>

lemma margin_result_shape:
  assumes "calculate_clearance_margin_excel_method d h c r = Inr res"
  shows "calculate_ag2_excel_method d h c r = Inr (Finite (ag2 res))"
    and "corrected_margin res =
          (if ag2 res < 5 then 0 else if ag2 res < 13 then sqrt ((ag2 res)\<^sup>2 - 25) else ag2 res)"
    and "is_inside_clearance res =
          is_point_inside_building_clearance (fst (coordinate_transform_to_rail_center d h c))
            (snd (coordinate_transform_to_rail_center d h c)) r"
    and "is_interference res = (is_inside_clearance res \<or> ag2 res < 5 \<or> corrected_margin res \<le> 0)"
    and "final_margin res =
          (if is_interference res then \<lceil>corrected_margin res\<rceil> else \<lfloor>corrected_margin res\<rfloor>)"
    and "rail_center_coords res = coordinate_transform_to_rail_center d h c"
proof -
  obtain v where v: "calculate_ag2_excel_method d h c r = Inr (Finite v)"
    using calculate_ag2_total [of d h c r] by blast
  obtain rx ry where t: "coordinate_transform_to_rail_center d h c = (rx, ry)"
    by (cases "coordinate_transform_to_rail_center d h c")
  define cm where "cm = (if v < 5 then 0 else if v < 13 then sqrt (v\<^sup>2 - 25) else v)"
  define ins where "ins = is_point_inside_building_clearance rx ry r"
  define itf where "itf = (ins \<or> v < 5 \<or> cm \<le> 0)"
  have sq: "\<not> v < 5 \<Longrightarrow> \<not> v\<^sup>2 - 25 < 0"
  proof -
    assume "\<not> v < 5"
    then have "5 * 5 \<le> v * v" by (intro mult_mono) auto
    then show ?thesis by (simp add: power2_eq_square)
  qed
  have tier: "(if v < 5 then Inr 0 else if v < 13 then py_sqrt (v\<^sup>2 - 25) else Inr v)
      = (Inr cm :: py_error + real)"
    using sq by (simp add: cm_def py_sqrt_def)
  have "calculate_clearance_margin_excel_method d h c r =
      Inr \<lparr>ag2 = v, corrected_margin = cm,
           final_margin = (if itf then \<lceil>cm\<rceil> else \<lfloor>cm\<rfloor>),
           is_interference = itf, rail_center_coords = (rx, ry), is_inside_clearance = ins\<rparr>"
    by (simp only: calculate_clearance_margin_excel_method_def v t tier sum.case pyfloat.case
          prod.case Let_def ins_def itf_def)
  then have res: "res = \<lparr>ag2 = v, corrected_margin = cm,
           final_margin = (if itf then \<lceil>cm\<rceil> else \<lfloor>cm\<rfloor>),
           is_interference = itf, rail_center_coords = (rx, ry), is_inside_clearance = ins\<rparr>"
    using assms by simp
  show "calculate_ag2_excel_method d h c r = Inr (Finite (ag2 res))" by (simp add: res v)
  show "corrected_margin res =
          (if ag2 res < 5 then 0 else if ag2 res < 13 then sqrt ((ag2 res)\<^sup>2 - 25) else ag2 res)"
    by (simp add: res cm_def)
  show "is_inside_clearance res =
          is_point_inside_building_clearance (fst (coordinate_transform_to_rail_center d h c))
            (snd (coordinate_transform_to_rail_center d h c)) r"
    by (simp add: res t ins_def)
  show "is_interference res = (is_inside_clearance res \<or> ag2 res < 5 \<or> corrected_margin res \<le> 0)"
    by (simp add: res itf_def)
  show "final_margin res =
          (if is_interference res then \<lceil>corrected_margin res\<rceil> else \<lfloor>corrected_margin res\<rfloor>)"
    by (simp add: res)
  show "rail_center_coords res = coordinate_transform_to_rail_center d h c"
    by (simp add: res t)
qed

lemma all_result_shape:
  "\<exists>res m. calculate_all_excel_method d h c r = Inr res
     \<and> calculate_clearance_margin_excel_method d h c r = Inr m
     \<and> res_required_clearance res = calculate_required_clearance_excel_method d h c r
     \<and> res_clearance_margin res = final_margin m
     \<and> res_ag2_distance res = ag2 m
     \<and> res_is_interference res = is_interference m
     \<and> res_details res = m"
proof -
  obtain m where m: "calculate_clearance_margin_excel_method d h c r = Inr m"
    using margin_total [of d h c r] by blast
  show ?thesis
    by (simp add: calculate_all_excel_method_def m Let_def)
qed

section \<open>Theorems\<close>

subsection \<open>The transform to the rail-centre frame\<close>

text \<open>
  C1. For every offset, height and cant, the transform to the rail-centre frame returns
  (offset - height * sin(atan(cant / 1067)), height * cos(atan(cant / 1067))): the
  x-coordinate is shifted by the sine term and not scaled by the cosine. With cant 0 it
  returns (offset, height).
\<close>

theorem C1_point_to_rail_center:
  "coordinate_transform_to_rail_center offset_mm height_mm cant_mm =
     (offset_mm - height_mm * sin (arctan (cant_mm / 1067)),
      height_mm * cos (arctan (cant_mm / 1067)))
   \<and> coordinate_transform_to_rail_center offset_mm height_mm 0 = (offset_mm, height_mm)"
  by (simp add: coordinate_transform_to_rail_center_def rail_gauge_def Let_def)

subsection \<open>The three tiers of the corrected margin\<close>

text \<open>
  C2. Every evaluation returns a result, and its corrected margin is this function of
  the raw nearest distance ag2: 0 when ag2 < 5, sqrt(ag2^2 - 25) when 5 <= ag2 < 13, and
  ag2 when ag2 >= 13. In particular an ag2 of exactly 13 gives a corrected margin of 13.
\<close>

theorem C2_corrected_margin_tiers:
  "\<exists>res. calculate_clearance_margin_excel_method offset_mm height_mm cant_mm radius_m = Inr res
     \<and> calculate_ag2_excel_method offset_mm height_mm cant_mm radius_m = Inr (Finite (ag2 res))
     \<and> corrected_margin res =
         (if ag2 res < 5 then 0
          else if ag2 res < 13 then sqrt ((ag2 res)\<^sup>2 - 25)
          else ag2 res)
     \<and> (ag2 res = 13 \<longrightarrow> corrected_margin res = 13)"
proof -
  obtain res where res:
    "calculate_clearance_margin_excel_method offset_mm height_mm cant_mm radius_m = Inr res"
    using margin_total by blast
  show ?thesis
    using margin_result_shape(1,2) [OF res] res by auto
qed

lemma ag2_at_1238: "calculate_ag2_excel_method 1238 0 0 0 = Inr (Finite 13)"
proof -
  have t: "coordinate_transform_to_rail_center 1238 0 0 = (1238, 0)"
    by (simp add: coordinate_transform_to_rail_center_def)
  obtain v where v: "calculate_ag2_excel_method 1238 0 0 0 = Inr (Finite v)"
    "\<forall>p\<in>set (reference_points 0). v \<le> point_distance 1238 0 p"
    "v \<in> point_distance 1238 0 ` set (reference_points 0)"
    using calculate_ag2_total [of 1238 0 0 0] by (auto simp add: t)
  have first: "(1225, 0) \<in> set (reference_points 0)"
  proof -
    have "(0::real) \<in> set (linspace 0 5700 1775)"
      by (simp add: linspace_def image_iff)
    then have "(base_clearance_value 0 + 0, 0) \<in> set (reference_points 0)"
      unfolding reference_points_def by (auto simp add: image_iff)
    then show ?thesis
      by (simp add: base_clearance_value_def calculate_base_clearance_at_height_def)
  qed
  have "v \<le> point_distance 1238 0 (1225, 0)" using v(2) first by blast
  then have up: "v \<le> 13" by (simp add: point_distance_def)
  have low: "13 \<le> point_distance 1238 0 p" if "p \<in> set (reference_points 0)" for p
  proof -
    have "\<exists>k. k \<in> set (linspace 0 5700 1775) \<and> p = (base_clearance_value k, k)"
      using that by (auto simp add: reference_points_def)
    then obtain k where k: "k \<in> set (linspace 0 5700 1775)" "p = (base_clearance_value k, k)"
      by blast
    have k0: "0 \<le> k" using linspace_nonneg [of 0 5700 k 1775] k(1) by simp
    have "169 \<le> (1238 - base_clearance_value k)\<^sup>2 + k\<^sup>2"
    proof (cases "k < 25")
      case True
      then have "base_clearance_value k = 1225"
        using k0 by (simp add: base_clearance_value_def calculate_base_clearance_at_height_def)
      then show ?thesis by simp
    next
      case False
      then have "25 * 25 \<le> k * k" by (intro mult_mono) auto
      then have "625 \<le> k\<^sup>2" by (simp add: power2_eq_square)
      moreover have "0 \<le> (1238 - base_clearance_value k)\<^sup>2" by simp
      ultimately show ?thesis by linarith
    qed
    then have "sqrt 169 \<le> sqrt ((1238 - base_clearance_value k)\<^sup>2 + k\<^sup>2)"
      by (simp only: real_sqrt_le_iff)
    moreover have "sqrt 169 = 13"
      using real_sqrt_abs [of 13] by simp
    ultimately show ?thesis by (simp add: point_distance_def k(2))
  qed
  have "13 \<le> v" using v(3) low by auto
  then show ?thesis using up v(1) by simp
qed

theorem C2_corrected_margin_tiers_witness:
  "\<exists>res. calculate_clearance_margin_excel_method 1238 0 0 0 = Inr res
     \<and> ag2 res = 13 \<and> corrected_margin res = 13"
  using C2_corrected_margin_tiers [of 1238 0 0 0] by (auto simp add: ag2_at_1238)

subsection \<open>Rounding by classification\<close>

lemma ag2_at_rail_level:
  assumes e: "\<bar>e\<bar> \<le> 25"
  shows "calculate_ag2_excel_method (1225 + e) 0 0 0 = Inr (Finite \<bar>e\<bar>)"
proof -
  have t: "coordinate_transform_to_rail_center (1225 + e) 0 0 = (1225 + e, 0)"
    by (simp add: coordinate_transform_to_rail_center_def)
  obtain v where v: "calculate_ag2_excel_method (1225 + e) 0 0 0 = Inr (Finite v)"
    "\<forall>p\<in>set (reference_points 0). v \<le> point_distance (1225 + e) 0 p"
    "v \<in> point_distance (1225 + e) 0 ` set (reference_points 0)"
    using calculate_ag2_total [of "1225 + e" 0 0 0] by (auto simp add: t)
  have first: "(1225, 0) \<in> set (reference_points 0)"
  proof -
    have "(0::real) \<in> set (linspace 0 5700 1775)"
      by (simp add: linspace_def image_iff)
    then have "(base_clearance_value 0 + 0, 0) \<in> set (reference_points 0)"
      unfolding reference_points_def by (auto simp add: image_iff)
    then show ?thesis
      by (simp add: base_clearance_value_def calculate_base_clearance_at_height_def)
  qed
  have "v \<le> point_distance (1225 + e) 0 (1225, 0)" using v(2) first by blast
  then have up: "v \<le> \<bar>e\<bar>" by (simp add: point_distance_def)
  have low: "\<bar>e\<bar> \<le> point_distance (1225 + e) 0 p" if "p \<in> set (reference_points 0)" for p
  proof -
    have "\<exists>k. k \<in> set (linspace 0 5700 1775) \<and> p = (base_clearance_value k, k)"
      using that by (auto simp add: reference_points_def)
    then obtain k where k: "k \<in> set (linspace 0 5700 1775)" "p = (base_clearance_value k, k)"
      by blast
    have k0: "0 \<le> k" using linspace_nonneg [of 0 5700 k 1775] k(1) by simp
    show ?thesis
    proof (cases "k < 25")
      case True
      then have b: "base_clearance_value k = 1225"
        using k0 by (simp add: base_clearance_value_def calculate_base_clearance_at_height_def)
      have "\<bar>e\<bar> \<le> sqrt (e\<^sup>2 + k\<^sup>2)"
        using real_sqrt_sum_squares_ge1 [of "\<bar>e\<bar>" k] by simp
      then show ?thesis by (simp add: point_distance_def k(2) b)
    next
      case False
      then have "\<bar>e\<bar> \<le> k" using e by simp
      also have "k \<le> sqrt ((1225 + e - base_clearance_value k)\<^sup>2 + k\<^sup>2)"
        by (rule real_sqrt_sum_squares_ge2)
      finally show ?thesis by (simp add: point_distance_def k(2))
    qed
  qed
  have "\<bar>e\<bar> \<le> v" using v(3) low by auto
  then show ?thesis using up v(1) by simp
qed

lemma root_119: "10 < sqrt 119" "sqrt 119 < 11"
proof -
  show "10 < sqrt 119" using sqrt_gt [of 10 119] by simp
  show "sqrt 119 < 11" using sqrt_lt [of 119 11] by simp
qed

text \<open>
  C3. Every evaluation returns a result whose final margin is the ceiling of the
  corrected margin when the point is classified as interfering, and its floor otherwise.
  The corrected margin is the tier function of the nearest distance the evaluation
  computes, and the classification is that of the code: inside the envelope, or nearer
  than 5, or a corrected margin of 0. The two directions differ on the same corrected
  margin: at height 0, the offsets 1237 and 1213 are both 12 from the envelope, with
  corrected margin sqrt(119); the first is clear and gets 10, the second interferes and
  gets 11.
\<close>

theorem C3_directional_rounding:
  "\<exists>res a. calculate_all_excel_method offset_mm height_mm cant_mm radius_m = Inr res
     \<and> calculate_ag2_excel_method offset_mm height_mm cant_mm radius_m = Inr (Finite a)
     \<and> res_ag2_distance res = a
     \<and> corrected_margin (res_details res) =
         (if a < 5 then 0 else if a < 13 then sqrt (a\<^sup>2 - 25) else a)
     \<and> res_is_interference res =
         (is_point_inside_building_clearance
            (fst (coordinate_transform_to_rail_center offset_mm height_mm cant_mm))
            (snd (coordinate_transform_to_rail_center offset_mm height_mm cant_mm)) radius_m
          \<or> a < 5 \<or> corrected_margin (res_details res) \<le> 0)
     \<and> res_clearance_margin res =
         (if res_is_interference res then \<lceil>corrected_margin (res_details res)\<rceil>
          else \<lfloor>corrected_margin (res_details res)\<rfloor>)"
proof -
  obtain res m where r:
    "calculate_all_excel_method offset_mm height_mm cant_mm radius_m = Inr res"
    "calculate_clearance_margin_excel_method offset_mm height_mm cant_mm radius_m = Inr m"
    "res_clearance_margin res = final_margin m"
    "res_ag2_distance res = ag2 m"
    "res_is_interference res = is_interference m"
    "res_details res = m"
    using all_result_shape [of offset_mm height_mm cant_mm radius_m] by blast
  note s = margin_result_shape [OF r(2)]
  have "calculate_ag2_excel_method offset_mm height_mm cant_mm radius_m = Inr (Finite (ag2 m))"
    by (rule s(1))
  moreover have "corrected_margin m =
      (if ag2 m < 5 then 0 else if ag2 m < 13 then sqrt ((ag2 m)\<^sup>2 - 25) else ag2 m)"
    by (rule s(2))
  moreover have "is_interference m =
      (is_point_inside_building_clearance
         (fst (coordinate_transform_to_rail_center offset_mm height_mm cant_mm))
         (snd (coordinate_transform_to_rail_center offset_mm height_mm cant_mm)) radius_m
       \<or> ag2 m < 5 \<or> corrected_margin m \<le> 0)"
    using s(3) s(4) by simp
  moreover have "final_margin m =
      (if is_interference m then \<lceil>corrected_margin m\<rceil> else \<lfloor>corrected_margin m\<rfloor>)"
    by (rule s(5))
  ultimately show ?thesis
    using r by (intro exI [of _ res] exI [of _ "ag2 m"]) simp
qed

theorem C3_directional_rounding_witness:
  "(\<exists>res. calculate_all_excel_method 1237 0 0 0 = Inr res
      \<and> res_ag2_distance res = 12 \<and> corrected_margin (res_details res) = sqrt 119
      \<and> \<not> res_is_interference res \<and> res_clearance_margin res = 10)
   \<and> (\<exists>res. calculate_all_excel_method 1213 0 0 0 = Inr res
      \<and> res_ag2_distance res = 12 \<and> corrected_margin (res_details res) = sqrt 119
      \<and> res_is_interference res \<and> res_clearance_margin res = 11)"
proof -
  have a1: "calculate_ag2_excel_method 1237 0 0 0 = Inr (Finite 12)"
    using ag2_at_rail_level [of 12] by simp
  have a2: "calculate_ag2_excel_method 1213 0 0 0 = Inr (Finite 12)"
    using ag2_at_rail_level [of "- 12"] by simp
  have c: "sqrt (12\<^sup>2 - 25) = sqrt 119" by simp
  have pos: "\<not> sqrt 119 \<le> 0" using root_119(1) by simp
  have fl: "\<lfloor>sqrt 119\<rfloor> = 10" using root_119 by (simp add: floor_eq_iff)
  have ce: "\<lceil>sqrt 119\<rceil> = 11" using root_119 by (simp add: ceiling_eq_iff)
  have out: "\<not> is_point_inside_building_clearance 1237 0 0"
    by (simp add: is_point_inside_building_clearance_def)
  have ins: "is_point_inside_building_clearance 1213 0 0"
    by (simp add: is_point_inside_building_clearance_def)
  have t1: "coordinate_transform_to_rail_center 1237 0 0 = (1237, 0)"
    and t2: "coordinate_transform_to_rail_center 1213 0 0 = (1213, 0)"
    by (simp_all add: coordinate_transform_to_rail_center_def)
  have "\<exists>res. calculate_all_excel_method 1237 0 0 0 = Inr res
      \<and> res_ag2_distance res = 12 \<and> corrected_margin (res_details res) = sqrt 119
      \<and> \<not> res_is_interference res \<and> res_clearance_margin res = 10"
    using C3_directional_rounding [of 1237 0 0 0]
    by (auto simp add: a1 t1 c pos fl out)
  moreover have "\<exists>res. calculate_all_excel_method 1213 0 0 0 = Inr res
      \<and> res_ag2_distance res = 12 \<and> corrected_margin (res_details res) = sqrt 119
      \<and> res_is_interference res \<and> res_clearance_margin res = 11"
    using C3_directional_rounding [of 1213 0 0 0]
    by (auto simp add: a2 t2 c ce ins)
  ultimately show ?thesis by blast
qed

subsection \<open>The upper and the general widening\<close>

text \<open>
  C7. For every positive radius, twice the upper-envelope widening
  (\<open>calculate_upper_expansion_width\<close>) is the general widening
  (\<open>calculate_expansion_width\<close>).
\<close>

theorem C7_upper_widening_is_half:
  "0 < radius_m \<Longrightarrow>
     calculate_upper_expansion_width radius_m * 2 = calculate_expansion_width radius_m"
  by (simp add: calculate_upper_expansion_width_def calculate_expansion_width_def)

theorem C7_upper_widening_is_half_witness:
  "(0::real) < 300 \<and> calculate_upper_expansion_width 300 * 2 = calculate_expansion_width 300
     \<and> calculate_expansion_width 300 = 77"
  using C7_upper_widening_is_half [of 300]
  by (simp add: calculate_expansion_width_def)

subsection \<open>Heights below the rail level\<close>

lemma rail_height_negative:
  assumes "h < 0"
  shows "snd (coordinate_transform_to_rail_center d h c) < 0"
proof (cases "c = 0")
  case True
  then show ?thesis using assms by (simp add: coordinate_transform_to_rail_center_def)
next
  case False
  have "0 < cos (arctan (c / rail_gauge))"
    by (rule cos_gt_zero_pi) (rule arctan_lbound, rule arctan_ubound)
  then have "h * cos (arctan (c / rail_gauge)) < 0"
    using assms by (simp add: mult_neg_pos)
  then show ?thesis
    using False by (simp add: coordinate_transform_to_rail_center_def Let_def)
qed

lemma outside_height_range_not_inside:
  "y < 0 \<or> y > 5700 \<Longrightarrow> \<not> is_point_inside_building_clearance x y r"
  by (simp add: is_point_inside_building_clearance_def)

text \<open>
  C10. A negative height is not rejected: \<open>calculate_base_clearance_at_height\<close>
  returns positive infinity there, the inside test is False for every point with y < 0
  or y > 5700, and the evaluation of a point of negative height returns a result that is
  not classified as inside the envelope.
\<close>

theorem C10_negative_height:
  "height_mm < 0 \<Longrightarrow>
     calculate_base_clearance_at_height height_mm = PosInf
     \<and> (\<forall>x y r. y < 0 \<or> y > 5700 \<longrightarrow> \<not> is_point_inside_building_clearance x y r)
     \<and> (\<exists>res. calculate_all_excel_method offset_mm height_mm cant_mm radius_m = Inr res
           \<and> \<not> is_inside_clearance (res_details res))"
proof -
  assume neg: "height_mm < 0"
  obtain res m where r:
    "calculate_all_excel_method offset_mm height_mm cant_mm radius_m = Inr res"
    "calculate_clearance_margin_excel_method offset_mm height_mm cant_mm radius_m = Inr m"
    "res_details res = m"
    using all_result_shape [of offset_mm height_mm cant_mm radius_m] by blast
  have "\<not> is_inside_clearance m"
    using margin_result_shape(3) [OF r(2)] rail_height_negative [OF neg, of offset_mm cant_mm]
    by (simp add: outside_height_range_not_inside)
  then show ?thesis
    using neg r by (simp add: calculate_base_clearance_at_height_def outside_height_range_not_inside)
qed

theorem C10_negative_height_witness:
  "(- 10 :: real) < 0
     \<and> calculate_base_clearance_at_height (- 10) = PosInf
     \<and> \<not> is_point_inside_building_clearance 0 (- 1) 0
     \<and> \<not> is_point_inside_building_clearance 0 6000 0
     \<and> (\<exists>res. calculate_all_excel_method 0 (- 10) 100 0 = Inr res
           \<and> \<not> is_inside_clearance (res_details res))"
proof -
  have neg: "(- 10 :: real) < 0" by simp
  have a: "(- 1 :: real) < 0 \<or> (- 1 :: real) > 5700" by simp
  have b: "(6000 :: real) < 0 \<or> (6000 :: real) > 5700" by simp
  have all: "calculate_base_clearance_at_height (- 10) = PosInf
     \<and> (\<forall>x y r. y < 0 \<or> y > 5700 \<longrightarrow> \<not> is_point_inside_building_clearance x y r)
     \<and> (\<exists>res. calculate_all_excel_method 0 (- 10) 100 0 = Inr res
           \<and> \<not> is_inside_clearance (res_details res))"
    by (rule C10_negative_height [OF neg])
  have "\<not> is_point_inside_building_clearance 0 (- 1) 0"
    using all a by blast
  moreover have "\<not> is_point_inside_building_clearance 0 6000 0"
    using all b by blast
  ultimately show ?thesis
    using all neg by blast
qed

subsection \<open>Required clearance on straight, level track\<close>

lemma required_clearance_straight:
  "calculate_required_clearance_excel_method d h 0 0 =
     (if h < 375 then (if h \<le> 350 then 1225 + h else 1575)
      else base_clearance_value h)"
  by (simp add: calculate_required_clearance_excel_method_def coordinate_transform_to_rail_center_def
        base_clearance_value_def calculate_base_clearance_at_height_def Let_def)

text \<open>
  C4. The claim: with cant 0 and radius 0, the required clearance of the evaluation is
  \<open>calculate_base_clearance_at_height\<close> of the height, for every height >= 0. At
  height 10 the evaluation returns 1235 and the base clearance is 1225.
\<close>

theorem C4_required_clearance_counterexample:
  "map_sum id res_required_clearance (calculate_all_excel_method 0 10 0 0) = Inr 1235
     \<and> calculate_base_clearance_at_height 10 = Finite 1225"
proof -
  obtain res where r: "calculate_all_excel_method 0 10 0 0 = Inr res"
    "res_required_clearance res = calculate_required_clearance_excel_method 0 10 0 0"
    using all_result_shape [of 0 10 0 0] by blast
  show ?thesis
    by (simp add: r required_clearance_straight calculate_base_clearance_at_height_def)
qed

text \<open>
  C4, as amended. With cant 0 and radius 0 the required clearance of the evaluation
  equals the base clearance at the height for height 0 and for every height >= 375; it is
  1225 + height for 0 <= height <= 350, and 1575 for 350 < height < 375.
\<close>

theorem C4_required_clearance_straight_track:
  "0 \<le> height_mm \<Longrightarrow>
     \<exists>res. calculate_all_excel_method offset_mm height_mm 0 0 = Inr res
       \<and> (height_mm = 0 \<or> 375 \<le> height_mm \<longrightarrow>
            Finite (res_required_clearance res) = calculate_base_clearance_at_height height_mm)
       \<and> (height_mm \<le> 350 \<longrightarrow> res_required_clearance res = 1225 + height_mm)
       \<and> (350 < height_mm \<and> height_mm < 375 \<longrightarrow> res_required_clearance res = 1575)"
proof -
  assume h0: "0 \<le> height_mm"
  obtain res where r: "calculate_all_excel_method offset_mm height_mm 0 0 = Inr res"
    "res_required_clearance res = calculate_required_clearance_excel_method offset_mm height_mm 0 0"
    using all_result_shape [of offset_mm height_mm 0 0] by blast
  have "height_mm = 0 \<or> 375 \<le> height_mm \<Longrightarrow>
      Finite (res_required_clearance res) = calculate_base_clearance_at_height height_mm"
    using h0 by (auto simp add: r(2) required_clearance_straight base_clearance_value_nonneg_eq
        base_clearance_value_def calculate_base_clearance_at_height_def)
  moreover have "height_mm \<le> 350 \<Longrightarrow> res_required_clearance res = 1225 + height_mm"
    by (simp add: r(2) required_clearance_straight)
  moreover have "350 < height_mm \<and> height_mm < 375 \<Longrightarrow> res_required_clearance res = 1575"
    by (simp add: r(2) required_clearance_straight)
  ultimately show ?thesis using r(1) by blast
qed

theorem C4_required_clearance_straight_track_witness:
  "(\<exists>res. calculate_all_excel_method 0 1000 0 0 = Inr res
      \<and> Finite (res_required_clearance res) = calculate_base_clearance_at_height 1000
      \<and> res_required_clearance res = 1900)
   \<and> (\<exists>res. calculate_all_excel_method 0 0 0 0 = Inr res
      \<and> Finite (res_required_clearance res) = calculate_base_clearance_at_height 0
      \<and> res_required_clearance res = 1225)
   \<and> (\<exists>res. calculate_all_excel_method 0 360 0 0 = Inr res
      \<and> res_required_clearance res = 1575)"
proof -
  have a: "(0::real) \<le> 1000" and b: "(0::real) \<le> 0" and c: "(0::real) \<le> 360" by simp_all
  have "calculate_base_clearance_at_height 1000 = Finite 1900"
    by (simp add: calculate_base_clearance_at_height_def)
  then show ?thesis
    using C4_required_clearance_straight_track [OF a, of 0]
      C4_required_clearance_straight_track [OF b, of 0]
      C4_required_clearance_straight_track [OF c, of 0]
    by auto
qed

subsection \<open>The envelope polygon and its mirror image\<close>

lemma upper_arc_points_height: "p \<in> set upper_arc_points \<Longrightarrow> 4000 \<le> snd p"
  by (auto simp add: upper_arc_points_def Let_def split: if_splits)

text \<open>
  The right-hand outline \<open>create_accurate_clearance\<close> builds between its first vertex
  and the two top corners.
\<close>

lemma right_outline_height: "p \<in> set right_outline \<Longrightarrow> 25 \<le> snd p"
proof -
  assume "p \<in> set right_outline"
  then consider "p = (1225, 25)"
    | "p \<in> set (map (\<lambda>h. (1225 + (h - 25) * (1575 - 1225) / (375 - 25), h)) (linspace 25 375 10))"
    | "p \<in> {(1575, 920), (1900, 920), (1900, 3156), (1350, 3823), (1350, 4300)}"
    | "p \<in> set (concat (map (\<lambda>h.
        (let discriminant = 2150\<^sup>2 - (h - 2150)\<^sup>2
         in if discriminant \<ge> 0 then [(sqrt discriminant, h)] else []))
        (linspace 3156 3823 100)))"
    | "p \<in> set upper_arc_points"
    unfolding right_outline_def by auto
  then show ?thesis
  proof cases
    case 1 then show ?thesis by simp
  next
    case 2
    then obtain h where "h \<in> set (linspace 25 375 10)" "snd p = h" by auto
    then show ?thesis using linspace_lower [of 25 375 h 10] by simp
  next
    case 3 then show ?thesis by auto
  next
    case 4
    then obtain h where "h \<in> set (linspace 3156 3823 100)" "snd p = h"
      by (auto simp add: Let_def split: if_splits)
    then show ?thesis using linspace_lower [of 3156 3823 h 100] by simp
  next
    case 5 then show ?thesis using upper_arc_points_height [of p] by simp
  qed
qed

lemma create_accurate_clearance_eq:
  "create_accurate_clearance =
     (1225, 0) # right_outline @ [(1350, 5700), (- 1350, 5700)] @
     map (\<lambda>(x, y). (- x, y)) (rev (filter (\<lambda>(x, y). x > 0) right_outline)) @
     [(1225, 0)]"
  unfolding create_accurate_clearance_def right_outline_def Let_def
  by (simp add: butlast_append)

text \<open>
  C6. The claim: for every vertex (x, y) of the polygon of
  \<open>create_accurate_clearance\<close>, (-x, y) is a vertex too. The polygon starts and ends
  at (1225, 0), and the slice \<open>right_points[1:-1]\<close> leaves that vertex out of the
  mirrored half: (-1225, 0) is not a vertex.
\<close>

theorem C6_mirror_of_first_vertex_missing:
  "(1225, 0) \<in> set create_accurate_clearance
     \<and> (- 1225, 0) \<notin> set create_accurate_clearance"
proof -
  have a: "(- 1225, 0) \<notin> set right_outline"
    using right_outline_height [of "(- 1225, 0)"] by auto
  have b: "(- 1225, 0) \<notin> set (map (\<lambda>(x, y). (- x, y)) (rev (filter (\<lambda>(x, y). x > 0) right_outline)))"
  proof
    assume "(- 1225, 0) \<in> set (map (\<lambda>(x, y). (- x, y)) (rev (filter (\<lambda>(x, y). x > 0) right_outline)))"
    then obtain q where "q \<in> set right_outline" "snd q = 0" by auto
    then show False using right_outline_height [of q] by simp
  qed
  show ?thesis
    using a b by (simp add: create_accurate_clearance_eq)
qed

lemma linspace_upper:
  assumes "a \<le> b" "h \<in> set (linspace a b n)"
  shows "h \<le> b"
proof -
  obtain i where i: "i < n" "h = a + real i * ((b - a) / real (n - 1))"
    using assms(2) by (auto simp add: linspace_def)
  show ?thesis
  proof (cases "n - 1 = 0")
    case True
    then have "i = 0" using i(1) by simp
    then show ?thesis using assms(1) i(2) by simp
  next
    case False
    then have pos: "0 < real (n - 1)" by simp
    have "real i \<le> real (n - 1)" using i(1) by simp
    then have "real i / real (n - 1) \<le> 1" using pos by (simp add: divide_le_eq)
    moreover have "0 \<le> b - a" using assms(1) by simp
    ultimately have "(b - a) * (real i / real (n - 1)) \<le> (b - a) * 1"
      by (intro mult_left_mono) auto
    then show ?thesis by (simp add: i(2) mult.commute)
  qed
qed

lemma upper_arc_points_right: "p \<in> set upper_arc_points \<Longrightarrow> 0 < fst p"
proof -
  assume p: "p \<in> set upper_arc_points"
  define start where "start = arctan (sqrt 1417500 / 1350)"
  have start: "0 < start" "start < pi / 2"
  proof -
    show "0 < start" by (simp add: start_def zero_less_arctan_iff)
    show "start < pi / 2" unfolding start_def by (rule arctan_ubound)
  qed
  have s: "atan2 (sqrt 1417500) 1350 = start"
    by (simp add: atan2_def start_def)
  have "\<exists>i<30. p = (1800 * cos (start + (pi / 2 - start) * real i / 29),
                      4000 + 1800 * sin (start + (pi / 2 - start) * real i / 29))
              \<and> 4000 + 1800 * sin (start + (pi / 2 - start) * real i / 29) \<le> 5700"
    using p unfolding upper_arc_points_def Let_def
    by (auto simp add: s split: if_splits)
  then obtain i :: nat where i: "i < 30"
    "p = (1800 * cos (start + (pi / 2 - start) * real i / 29),
          4000 + 1800 * sin (start + (pi / 2 - start) * real i / 29))"
    "4000 + 1800 * sin (start + (pi / 2 - start) * real i / 29) \<le> 5700"
    by blast
  define angle where "angle = start + (pi / 2 - start) * real i / 29"
  have "real i / 29 \<le> 1" using i(1) by simp
  moreover have "0 \<le> pi / 2 - start" using start by simp
  ultimately have "(pi / 2 - start) * (real i / 29) \<le> (pi / 2 - start) * 1"
    by (intro mult_left_mono) auto
  then have le: "angle \<le> pi / 2" by (simp add: angle_def)
  have "0 \<le> (pi / 2 - start) * real i / 29" using start by simp
  then have ge: "0 < angle" unfolding angle_def using start(1) by linarith
  have sin1: "sin angle < 1" using i(3) by (simp add: angle_def)
  have "angle \<noteq> pi / 2"
  proof
    assume "angle = pi / 2"
    then have "sin angle = 1" by (simp only: sin_pi_half)
    then show False using sin1 by simp
  qed
  then have "angle < pi / 2" using le by simp
  then have "0 < cos angle" using ge by (intro cos_gt_zero_pi) auto
  then show ?thesis by (simp add: i(2) angle_def)
qed

lemma right_outline_right: "p \<in> set right_outline \<Longrightarrow> 0 < fst p"
proof -
  assume "p \<in> set right_outline"
  then consider "p = (1225, 25)"
    | "p \<in> set (map (\<lambda>h. (1225 + (h - 25) * (1575 - 1225) / (375 - 25), h)) (linspace 25 375 10))"
    | "p \<in> {(1575, 920), (1900, 920), (1900, 3156), (1350, 3823), (1350, 4300)}"
    | "p \<in> set (concat (map (\<lambda>h.
        (let discriminant = 2150\<^sup>2 - (h - 2150)\<^sup>2
         in if discriminant \<ge> 0 then [(sqrt discriminant, h)] else []))
        (linspace 3156 3823 100)))"
    | "p \<in> set upper_arc_points"
    unfolding right_outline_def by auto
  then show ?thesis
  proof cases
    case 1 then show ?thesis by simp
  next
    case 2
    then obtain h where h: "h \<in> set (linspace 25 375 10)" "fst p = 1225 + (h - 25) * (1575 - 1225) / (375 - 25)"
      by auto
    have "25 \<le> h" using linspace_lower [of 25 375 h 10] h(1) by simp
    then have "0 \<le> (h - 25) * (1575 - 1225) / (375 - 25)" by simp
    then show ?thesis using h(2) by linarith
  next
    case 3 then show ?thesis by auto
  next
    case 4
    then obtain h where h: "h \<in> set (linspace 3156 3823 100)"
      "fst p = sqrt (2150\<^sup>2 - (h - 2150)\<^sup>2)"
      by (auto simp add: Let_def split: if_splits)
    have lo: "3156 \<le> h" using linspace_lower [of 3156 3823 h 100] h(1) by simp
    have hi: "h \<le> 3823" using linspace_upper [of 3156 3823 h 100] h(1) by simp
    have "(h - 2150) * (h - 2150) \<le> 1673 * 1673"
      using lo hi by (intro mult_mono) auto
    then have "0 < 2150\<^sup>2 - (h - 2150)\<^sup>2" by (simp add: power2_eq_square)
    then show ?thesis by (simp add: h(2))
  next
    case 5 then show ?thesis by (rule upper_arc_points_right)
  qed
qed

text \<open>
  Every other vertex of the polygon has its mirror: the vertices of the right-hand
  outline all lie to the right of the centre line, and each is mirrored.
\<close>

lemma mirror_of_other_vertices:
  assumes "(x, y) \<in> set create_accurate_clearance" "(x, y) \<noteq> (1225, 0)"
  shows "(- x, y) \<in> set create_accurate_clearance"
proof -
  define left where
    "left = map (\<lambda>(x, y). (- x, y)) (rev (filter (\<lambda>(x, y). x > 0) right_outline))"
  have set_eq: "set create_accurate_clearance =
      {(1225, 0), (1350, 5700), (- 1350, 5700)} \<union> set right_outline \<union> set left"
    by (auto simp add: create_accurate_clearance_eq left_def)
  have to_left: "(- a, b) \<in> set left" if "(a, b) \<in> set right_outline" for a b
  proof -
    have "0 < a" using right_outline_right [OF that] by simp
    then have "(a, b) \<in> set (rev (filter (\<lambda>(x, y). x > 0) right_outline))"
      using that by simp
    then have "(\<lambda>(x, y). (- x, y)) (a, b) \<in> set left"
      unfolding left_def set_map by (rule imageI)
    then show ?thesis by simp
  qed
  have to_right: "(- a, b) \<in> set right_outline" if "(a, b) \<in> set left" for a b
  proof -
    have "\<exists>q. q \<in> set right_outline \<and> (a, b) = (\<lambda>(x, y). (- x, y)) q"
      using that by (auto simp add: left_def)
    then obtain q where q: "q \<in> set right_outline" "(a, b) = (\<lambda>(x, y). (- x, y)) q"
      by blast
    obtain qa qb where qq: "q = (qa, qb)" by (cases q)
    have "a = - qa" "b = qb" using q(2) by (simp_all add: qq)
    then have "(- a, b) = q" by (simp add: qq)
    then show ?thesis using q(1) by simp
  qed
  consider "(x, y) = (1350, 5700)" | "(x, y) = (- 1350, 5700)"
    | "(x, y) \<in> set right_outline" | "(x, y) \<in> set left"
    using assms by (auto simp add: set_eq)
  then show ?thesis
  proof cases
    case 1 then show ?thesis by (simp add: set_eq)
  next
    case 2 then show ?thesis by (simp add: set_eq)
  next
    case 3 then show ?thesis using to_left by (simp add: set_eq)
  next
    case 4 then show ?thesis using to_right by (simp add: set_eq)
  qed
qed

subsection \<open>One-sided limits of the base clearance\<close>

lemma limit_from_left:
  assumes lo: "lo < b"
    and eq: "\<And>h. lo < h \<Longrightarrow> h < b \<Longrightarrow> base_clearance_value h = g h"
    and cont: "continuous (at_left b) g"
  shows "(base_clearance_value \<longlongrightarrow> g b) (at_left b)"
proof -
  have "eventually (\<lambda>h. h \<in> {lo<..<b}) (at_left b)"
    using lo by (rule eventually_at_left_real)
  then have ev: "eventually (\<lambda>h. base_clearance_value h = g h) (at_left b)"
    by (rule eventually_mono) (simp add: eq)
  have "(g \<longlongrightarrow> g b) (at_left b)"
    using cont by (simp add: continuous_within)
  then show ?thesis
    using ev by (simp add: tendsto_cong)
qed

lemma limit_from_right:
  assumes hi: "b < hi"
    and eq: "\<And>h. b < h \<Longrightarrow> h < hi \<Longrightarrow> base_clearance_value h = g h"
    and cont: "continuous (at_right b) g"
  shows "(base_clearance_value \<longlongrightarrow> g b) (at_right b)"
proof -
  have "eventually (\<lambda>h. h \<in> {b<..<hi}) (at_right b)"
    using hi by (rule eventually_at_right_real)
  then have ev: "eventually (\<lambda>h. base_clearance_value h = g h) (at_right b)"
    by (rule eventually_mono) (simp add: eq)
  have "(g \<longlongrightarrow> g b) (at_right b)"
    using cont by (simp add: continuous_within)
  then show ?thesis
    using ev by (simp add: tendsto_cong)
qed

lemma value_below_25: "0 < h \<Longrightarrow> h < 25 \<Longrightarrow> base_clearance_value h = 1225"
  by (simp add: base_clearance_value_def calculate_base_clearance_at_height_def)

lemma value_25_375: "25 < h \<Longrightarrow> h < 375 \<Longrightarrow> base_clearance_value h = 1200 + h"
  by (simp add: base_clearance_value_def calculate_base_clearance_at_height_def diff_divide_distrib)

lemma value_375_920: "375 < h \<Longrightarrow> h < 920 \<Longrightarrow> base_clearance_value h = 1575"
  by (simp add: base_clearance_value_def calculate_base_clearance_at_height_def)

lemma value_920_3156: "920 < h \<Longrightarrow> h < 3156 \<Longrightarrow> base_clearance_value h = 1900"
  by (simp add: base_clearance_value_def calculate_base_clearance_at_height_def)

lemma lower_arc_discriminant:
  assumes "3156 \<le> (h::real)" "h < 3823"
  shows "0 \<le> 2150\<^sup>2 - (h - 2150)\<^sup>2"
proof -
  have "(h - 2150) * (h - 2150) \<le> 1673 * 1673"
    using assms by (intro mult_mono) auto
  then show ?thesis by (simp add: power2_eq_square)
qed

lemma value_3156_3823:
  "3156 < h \<Longrightarrow> h < 3823 \<Longrightarrow> base_clearance_value h = sqrt (2150\<^sup>2 - (h - 2150)\<^sup>2)"
  using lower_arc_discriminant [of h]
  by (simp add: base_clearance_value_def calculate_base_clearance_at_height_def Let_def)

lemma value_3823_5190: "3823 < h \<Longrightarrow> h < 5190 \<Longrightarrow> base_clearance_value h = 1350"
  by (simp add: base_clearance_value_def calculate_base_clearance_at_height_def)

lemma upper_arc_discriminant:
  assumes "5190 \<le> (h::real)" "h < 5800"
  shows "0 \<le> 1800\<^sup>2 - (h - 4000)\<^sup>2"
proof -
  have "(h - 4000) * (h - 4000) \<le> 1800 * 1800"
    using assms by (intro mult_mono) auto
  then show ?thesis by (simp add: power2_eq_square)
qed

lemma value_above_5190:
  "5190 < h \<Longrightarrow> h < 5800 \<Longrightarrow> base_clearance_value h = sqrt (1800\<^sup>2 - (h - 4000)\<^sup>2)"
  using upper_arc_discriminant [of h]
  by (simp add: base_clearance_value_def calculate_base_clearance_at_height_def Let_def)

lemma left_25: "(base_clearance_value \<longlongrightarrow> 1225) (at_left 25)"
  using limit_from_left [of 0 25 "\<lambda>h. 1225"] by (simp add: value_below_25)

lemma right_25: "(base_clearance_value \<longlongrightarrow> 1225) (at_right 25)"
proof -
  have "continuous (at_right 25) (\<lambda>h::real. 1200 + h)"
    by (intro continuous_intros)
  then show ?thesis
    using limit_from_right [of 25 375 "\<lambda>h. 1200 + h"] by (simp add: value_25_375)
qed

lemma left_375: "(base_clearance_value \<longlongrightarrow> 1575) (at_left 375)"
proof -
  have "continuous (at_left 375) (\<lambda>h::real. 1200 + h)"
    by (intro continuous_intros)
  then show ?thesis
    using limit_from_left [of 25 375 "\<lambda>h. 1200 + h"] by (simp add: value_25_375)
qed

lemma right_375: "(base_clearance_value \<longlongrightarrow> 1575) (at_right 375)"
  using limit_from_right [of 375 920 "\<lambda>h. 1575"] by (simp add: value_375_920)

lemma left_920: "(base_clearance_value \<longlongrightarrow> 1575) (at_left 920)"
  using limit_from_left [of 375 920 "\<lambda>h. 1575"] by (simp add: value_375_920)

lemma right_920: "(base_clearance_value \<longlongrightarrow> 1900) (at_right 920)"
  using limit_from_right [of 920 3156 "\<lambda>h. 1900"] by (simp add: value_920_3156)

lemma left_3156: "(base_clearance_value \<longlongrightarrow> 1900) (at_left 3156)"
  using limit_from_left [of 920 3156 "\<lambda>h. 1900"] by (simp add: value_920_3156)

lemma right_3156: "(base_clearance_value \<longlongrightarrow> sqrt 3610464) (at_right 3156)"
proof -
  have "continuous (at_right 3156) (\<lambda>h::real. sqrt (2150\<^sup>2 - (h - 2150)\<^sup>2))"
    by (intro continuous_intros)
  then show ?thesis
    using limit_from_right [of 3156 3823 "\<lambda>h. sqrt (2150\<^sup>2 - (h - 2150)\<^sup>2)"]
    by (simp add: value_3156_3823)
qed

lemma left_3823: "(base_clearance_value \<longlongrightarrow> sqrt 1823571) (at_left 3823)"
proof -
  have "continuous (at_left 3823) (\<lambda>h::real. sqrt (2150\<^sup>2 - (h - 2150)\<^sup>2))"
    by (intro continuous_intros)
  then show ?thesis
    using limit_from_left [of 3156 3823 "\<lambda>h. sqrt (2150\<^sup>2 - (h - 2150)\<^sup>2)"]
    by (simp add: value_3156_3823)
qed

lemma right_3823: "(base_clearance_value \<longlongrightarrow> 1350) (at_right 3823)"
  using limit_from_right [of 3823 5190 "\<lambda>h. 1350"] by (simp add: value_3823_5190)

lemma left_5190: "(base_clearance_value \<longlongrightarrow> 1350) (at_left 5190)"
  using limit_from_left [of 3823 5190 "\<lambda>h. 1350"] by (simp add: value_3823_5190)

lemma right_5190: "(base_clearance_value \<longlongrightarrow> sqrt 1823900) (at_right 5190)"
proof -
  have "continuous (at_right 5190) (\<lambda>h::real. sqrt (1800\<^sup>2 - (h - 4000)\<^sup>2))"
    by (intro continuous_intros)
  then show ?thesis
    using limit_from_right [of 5190 5800 "\<lambda>h. sqrt (1800\<^sup>2 - (h - 4000)\<^sup>2)"]
    by (simp add: value_above_5190)
qed

lemma gap_3156: "1 / 10 < sqrt 3610464 - 1900"
  using sqrt_gt [of "19001 / 10" 3610464] by (simp add: power2_eq_square)

lemma gap_3823: "3 / 10 < sqrt 1823571 - 1350"
  using sqrt_gt [of "13503 / 10" 1823571] by (simp add: power2_eq_square)

lemma gap_5190: "1 / 2 < sqrt 1823900 - 1350"
  using sqrt_gt [of "13505 / 10" 1823900] by (simp add: power2_eq_square)

text \<open>
  C5. The claim: at each of the heights 25, 375, 920, 3156, 3823 and 5190 the left and
  the right limit of the base clearance differ by less than 1e-6. At 920 the left limit is
  1575 and the right limit is 1900.
\<close>

theorem C5_step_at_920_counterexample:
  "(base_clearance_value \<longlongrightarrow> 1575) (at_left 920)
     \<and> (base_clearance_value \<longlongrightarrow> 1900) (at_right 920)
     \<and> \<not> \<bar>1575 - 1900\<bar> < (1 / 1000000 :: real)"
  using left_920 right_920 by simp

text \<open>
  C5, as amended. The base clearance is continuous at 25 and at 375, where both
  one-sided limits are 1225 and 1575. At 920 it steps from 1575 to 1900. At 3156, 3823 and
  5190 a constant run meets an arc whose end is not on it: the one-sided limits are 1900
  and sqrt(3610464), sqrt(1823571) and 1350, 1350 and sqrt(1823900), more than 0.1, 0.3
  and 0.5 apart.
\<close>

theorem C5_one_sided_limits:
  "(base_clearance_value \<longlongrightarrow> 1225) (at_left 25)
     \<and> (base_clearance_value \<longlongrightarrow> 1225) (at_right 25)
     \<and> (base_clearance_value \<longlongrightarrow> 1575) (at_left 375)
     \<and> (base_clearance_value \<longlongrightarrow> 1575) (at_right 375)
     \<and> (base_clearance_value \<longlongrightarrow> 1575) (at_left 920)
     \<and> (base_clearance_value \<longlongrightarrow> 1900) (at_right 920)
     \<and> (base_clearance_value \<longlongrightarrow> 1900) (at_left 3156)
     \<and> (base_clearance_value \<longlongrightarrow> sqrt 3610464) (at_right 3156)
     \<and> 1 / 10 < sqrt 3610464 - 1900
     \<and> (base_clearance_value \<longlongrightarrow> sqrt 1823571) (at_left 3823)
     \<and> (base_clearance_value \<longlongrightarrow> 1350) (at_right 3823)
     \<and> 3 / 10 < sqrt 1823571 - 1350
     \<and> (base_clearance_value \<longlongrightarrow> 1350) (at_left 5190)
     \<and> (base_clearance_value \<longlongrightarrow> sqrt 1823900) (at_right 5190)
     \<and> 1 / 2 < sqrt 1823900 - 1350"
  using left_25 right_25 left_375 right_375 left_920 right_920 left_3156 right_3156
    left_3823 right_3823 left_5190 right_5190 gap_3156 gap_3823 gap_5190
  by blast

subsection \<open>The regression fixture\<close>

lemma fixture_root_bounds:
  "107167 / 100 < sqrt 1148489" "sqrt 1148489 < 107168 / 100"
proof -
  show "107167 / 100 < sqrt 1148489"
    using sqrt_gt [of "107167 / 100" 1148489] by (simp add: power2_eq_square)
  show "sqrt 1148489 < 107168 / 100"
    using sqrt_lt [of 1148489 "107168 / 100"] by (simp add: power2_eq_square)
qed

lemma fixture_angle:
  "sin (arctan (100 / 1067)) = 100 / sqrt 1148489"
  "cos (arctan (100 / 1067)) = 1067 / sqrt 1148489"
proof -
  have "sqrt 1138489 = sqrt (1067\<^sup>2)" by (simp add: power2_eq_square)
  then have r: "sqrt 1138489 = 1067" by simp
  have "1 + (100 / 1067 :: real)\<^sup>2 = 1148489 / 1138489"
    by (simp add: power2_eq_square)
  then have "sqrt (1 + (100 / 1067)\<^sup>2) = sqrt (1148489 / 1138489)"
    by (simp only:)
  also have "\<dots> = sqrt 1148489 / 1067"
    by (simp only: real_sqrt_divide r)
  finally have s: "sqrt (1 + (100 / 1067)\<^sup>2) = sqrt 1148489 / 1067" .
  show "sin (arctan (100 / 1067)) = 100 / sqrt 1148489"
    by (simp add: sin_arctan s)
  show "cos (arctan (100 / 1067)) = 1067 / sqrt 1148489"
    by (simp add: cos_arctan s)
qed

lemma fixture_rail_point:
  "coordinate_transform_to_rail_center 1950 3560 100 =
     (1950 - 356000 / sqrt 1148489, 3798520 / sqrt 1148489)"
  by (simp add: coordinate_transform_to_rail_center_def rail_gauge_def Let_def fixture_angle)

lemma fixture_rail_x:
  "161780 / 100 < 1950 - 356000 / sqrt 1148489" "1950 - 356000 / sqrt 1148489 < 161782 / 100"
proof -
  have pos: "0 < sqrt 1148489" by simp
  have "356000 < (3322 / 10) * sqrt 1148489"
    using fixture_root_bounds(1) by simp
  then have "356000 / sqrt 1148489 < 3322 / 10"
    using pos by (simp add: pos_divide_less_eq)
  then show "161780 / 100 < 1950 - 356000 / sqrt 1148489" by simp
  have "(33218 / 100) * sqrt 1148489 < 356000"
    using fixture_root_bounds(2) by simp
  then have "33218 / 100 < 356000 / sqrt 1148489"
    using pos by (simp add: pos_less_divide_eq)
  then show "1950 - 356000 / sqrt 1148489 < 161782 / 100" by simp
qed

lemma fixture_rail_y:
  "35444 / 10 < 3798520 / sqrt 1148489" "3798520 / sqrt 1148489 < 35445 / 10"
proof -
  have pos: "0 < sqrt 1148489" by simp
  have "(35444 / 10) * sqrt 1148489 < 3798520"
    using fixture_root_bounds(2) by simp
  then show "35444 / 10 < 3798520 / sqrt 1148489"
    using pos by (simp add: pos_less_divide_eq)
  have "3798520 < (35445 / 10) * sqrt 1148489"
    using fixture_root_bounds(1) by simp
  then show "3798520 / sqrt 1148489 < 35445 / 10"
    using pos by (simp add: pos_divide_less_eq)
qed


lemma inside_lower_arc:
  assumes y: "3156 \<le> y" "y < 3823" and x: "0 \<le> x"
    and c: "x\<^sup>2 + (y - 2150)\<^sup>2 < 2150\<^sup>2"
  shows "is_point_inside_building_clearance x y 0"
proof -
  have d: "x\<^sup>2 < 2150\<^sup>2 - (y - 2150)\<^sup>2" using c by simp
  have "0 \<le> x\<^sup>2" by simp
  then have nn: "\<not> 2150\<^sup>2 - (y - 2150)\<^sup>2 < 0" using d by linarith
  have "x < sqrt (2150\<^sup>2 - (y - 2150)\<^sup>2)"
    using sqrt_gt [OF x d] .
  then have "\<bar>x\<bar> < sqrt (2150\<^sup>2 - (y - 2150)\<^sup>2)" using x by simp
  then show ?thesis
    using y nn by (simp add: is_point_inside_building_clearance_def Let_def)
qed

lemma near_centre:
  assumes "161780 / 100 < (x::real)" "x < 161782 / 100" "35444 / 10 < (y::real)" "y < 35445 / 10"
  shows "x\<^sup>2 + (y - 2150)\<^sup>2 < 2136\<^sup>2"
proof -
  have "x\<^sup>2 < (161782 / 100)\<^sup>2"
    using assms by (intro square_less) auto
  moreover have "(y - 2150)\<^sup>2 < (35445 / 10 - 2150)\<^sup>2"
    using assms by (intro square_less) auto
  moreover have "(161782 / 100)\<^sup>2 + (35445 / 10 - 2150)\<^sup>2 < (2136::real)\<^sup>2"
    by (simp add: power2_eq_square)
  ultimately show ?thesis by linarith
qed

lemma far_from_samples:
  assumes b: "161780 / 100 < x" "x < 161782 / 100" "35444 / 10 < y" "y < 35445 / 10"
    and k: "0 \<le> k"
  shows "14 < point_distance x y (base_clearance_value k, k)"
proof -
  consider "k < 3156" | "3156 \<le> k" "k < 3823" | "3823 \<le> k" by linarith
  then show ?thesis
  proof cases
    case 1
    have "14 < y - k" using 1 b by simp
    also have "y - k \<le> sqrt ((x - base_clearance_value k)\<^sup>2 + (y - k)\<^sup>2)"
      by (rule real_sqrt_sum_squares_ge2)
    finally show ?thesis by (simp add: point_distance_def)
  next
    case 2
    define px where "px = sqrt (2150\<^sup>2 - (k - 2150)\<^sup>2)"
    have disc: "0 \<le> 2150\<^sup>2 - (k - 2150)\<^sup>2"
      using lower_arc_discriminant [OF 2] .
    have v: "base_clearance_value k = px"
      using 2 disc
      by (simp add: px_def base_clearance_value_def calculate_base_clearance_at_height_def Let_def)
    have "px\<^sup>2 + (k - 2150)\<^sup>2 = 2150\<^sup>2"
      using disc by (simp add: px_def)
    then have on: "sqrt (px\<^sup>2 + (k - 2150)\<^sup>2) = 2150" by simp
    have "sqrt (((px - x) + x)\<^sup>2 + ((k - y) + (y - 2150))\<^sup>2)
        \<le> sqrt ((px - x)\<^sup>2 + (k - y)\<^sup>2) + sqrt (x\<^sup>2 + (y - 2150)\<^sup>2)"
      by (rule real_sqrt_sum_squares_triangle_ineq)
    then have tri: "2150 \<le> sqrt ((px - x)\<^sup>2 + (k - y)\<^sup>2) + sqrt (x\<^sup>2 + (y - 2150)\<^sup>2)"
      using on by simp
    have "sqrt (x\<^sup>2 + (y - 2150)\<^sup>2) < 2136"
      using sqrt_lt [of "x\<^sup>2 + (y - 2150)\<^sup>2" 2136] near_centre [OF b] by simp
    then have "14 < sqrt ((px - x)\<^sup>2 + (k - y)\<^sup>2)" using tri by linarith
    then show ?thesis
      by (simp add: point_distance_def v power2_commute [of x px] power2_commute [of y k])
  next
    case 3
    have "14 < k - y" using 3 b by simp
    also have "k - y \<le> sqrt ((base_clearance_value k - x)\<^sup>2 + (k - y)\<^sup>2)"
      by (rule real_sqrt_sum_squares_ge2)
    finally show ?thesis
      by (simp add: point_distance_def power2_commute [of x] power2_commute [of y k])
  qed
qed

lemma sample_1106: "(base_clearance_value (3152100 / 887), 3152100 / 887) \<in> set (reference_points 0)"
proof -
  have "(1106::nat) \<in> set [0..<1775]" by simp
  then have "0 + real 1106 * ((5700 - 0) / real (1775 - 1)) \<in> set (linspace 0 5700 1775)"
    unfolding linspace_def set_map by (rule imageI)
  moreover have "0 + real 1106 * ((5700 - 0) / real (1775 - 1)) = (3152100 / 887 :: real)"
    by simp
  ultimately have "(3152100 / 887 :: real) \<in> set (linspace 0 5700 1775)" by simp
  then have "(\<lambda>h. (base_clearance_value h + (if (0::real) > 0 then 23000 / 0 else 0), h)) (3152100 / 887)
      \<in> set (reference_points 0)"
    unfolding reference_points_def set_map by (rule imageI)
  then show ?thesis by simp
qed

lemma near_sample_1106:
  assumes b: "161780 / 100 < x" "x < 161782 / 100" "35444 / 10 < y" "y < 35445 / 10"
  shows "point_distance x y (base_clearance_value (3152100 / 887), 3152100 / 887) < 15"
proof -
  define k :: real where "k = 3152100 / 887"
  define px where "px = sqrt (2150\<^sup>2 - (k - 2150)\<^sup>2)"
  have k: "3156 \<le> k" "k < 3823" by (simp_all add: k_def)
  have disc: "0 \<le> 2150\<^sup>2 - (k - 2150)\<^sup>2"
    using lower_arc_discriminant [OF k] .
  have v: "base_clearance_value k = px"
    using k disc
    by (simp add: px_def base_clearance_value_def calculate_base_clearance_at_height_def Let_def)
  have lo: "16285 / 10 < px"
    unfolding px_def by (rule sqrt_gt) (simp_all add: k_def power2_eq_square)
  have hi: "px < 16286 / 10"
    unfolding px_def using disc by (intro sqrt_lt) (simp_all add: k_def power2_eq_square)
  have dx: "0 \<le> px - x" "px - x < 108 / 10" using lo hi b by simp_all
  have dy: "0 \<le> k - y" "k - y < 93 / 10" using b by (simp_all add: k_def)
  have "(px - x)\<^sup>2 < (108 / 10)\<^sup>2" using dx by (intro square_less) auto
  moreover have "(k - y)\<^sup>2 < (93 / 10)\<^sup>2" using dy by (intro square_less) auto
  moreover have "(108 / 10)\<^sup>2 + (93 / 10)\<^sup>2 < (15::real)\<^sup>2" by (simp add: power2_eq_square)
  ultimately have "(px - x)\<^sup>2 + (k - y)\<^sup>2 < 15\<^sup>2" by linarith
  then have "sqrt ((px - x)\<^sup>2 + (k - y)\<^sup>2) < 15"
    using sqrt_lt [of "(px - x)\<^sup>2 + (k - y)\<^sup>2" 15] by simp
  then show ?thesis
    unfolding k_def [symmetric]
    by (simp add: point_distance_def v power2_commute [of x px] power2_commute [of y k])
qed

text \<open>
  C9. The evaluation of the regression fixture, offset 1950 mm, height 3560 mm, cant
  100 mm and radius 0 m, returns a result with \<open>is_interference\<close> True and a margin
  of 15: the rail-centre point lies inside the lower arc, and its nearest sample is
  between 14 and 15 mm away.
\<close>

theorem C9_regression_fixture:
  "\<exists>res. calculate_all_excel_method 1950 3560 100 0 = Inr res
     \<and> res_is_interference res = True \<and> res_clearance_margin res = 15"
proof -
  define x where "x = 1950 - 356000 / sqrt 1148489"
  define y where "y = 3798520 / sqrt 1148489"
  have t: "coordinate_transform_to_rail_center 1950 3560 100 = (x, y)"
    by (simp only: fixture_rail_point x_def y_def)
  have b: "161780 / 100 < x" "x < 161782 / 100" "35444 / 10 < y" "y < 35445 / 10"
    using fixture_rail_x fixture_rail_y by (simp_all add: x_def y_def)
  obtain res m where r:
    "calculate_all_excel_method 1950 3560 100 0 = Inr res"
    "calculate_clearance_margin_excel_method 1950 3560 100 0 = Inr m"
    "res_clearance_margin res = final_margin m"
    "res_is_interference res = is_interference m"
    using all_result_shape [of 1950 3560 100 0] by blast
  obtain v where v: "calculate_ag2_excel_method 1950 3560 100 0 = Inr (Finite v)"
    "\<forall>p\<in>set (reference_points 0). v \<le> point_distance x y p"
    "v \<in> point_distance x y ` set (reference_points 0)"
    using calculate_ag2_total [of 1950 3560 100 0] by (auto simp add: t)
  have ag2: "ag2 m = v"
    using margin_result_shape(1) [OF r(2)] v(1) by simp
  have "v \<le> point_distance x y (base_clearance_value (3152100 / 887), 3152100 / 887)"
    using v(2) sample_1106 by blast
  then have up: "v < 15" using near_sample_1106 [OF b] by linarith
  have low: "14 < v"
  proof -
    obtain p where p: "p \<in> set (reference_points 0)" "v = point_distance x y p"
      using v(3) by blast
    have "\<exists>k. k \<in> set (linspace 0 5700 1775) \<and> p = (base_clearance_value k, k)"
      using p(1) by (auto simp add: reference_points_def)
    then obtain k where k: "k \<in> set (linspace 0 5700 1775)" "p = (base_clearance_value k, k)"
      by blast
    have "0 \<le> k" using linspace_nonneg [of 0 5700 k 1775] k(1) by simp
    then show ?thesis using far_from_samples [OF b] p(2) k(2) by simp
  qed
  have cm: "corrected_margin m = v"
    using margin_result_shape(2) [OF r(2)] low by (simp add: ag2)
  have "x\<^sup>2 + (y - 2150)\<^sup>2 < 2150\<^sup>2"
    using near_centre [OF b] by simp
  then have "is_point_inside_building_clearance x y 0"
    using b by (intro inside_lower_arc) simp_all
  then have ins: "is_inside_clearance m"
    using margin_result_shape(3) [OF r(2)] by (simp add: t)
  then have itf: "is_interference m"
    using margin_result_shape(4) [OF r(2)] by simp
  have "final_margin m = \<lceil>v\<rceil>"
    using margin_result_shape(5) [OF r(2)] itf cm by simp
  moreover have "\<lceil>v\<rceil> = 15"
    using low up by (simp add: ceiling_eq_iff)
  ultimately show ?thesis
    using r itf by simp
qed

subsection \<open>Curve widening\<close>






end
